theory Spec2Isabelle
  imports Main "HOL-Library.Multiset"
begin

section \<open>Values exchanged with the transport layer\<close>

text \<open>
  JSON bodies as \<open>res.json\<close> receives them. An object keeps its fields in the order the
  source writes them.
\<close>

datatype json =
    JBool bool
  | JNum int
  | JStr string
  | JArr "json list"
  | JObj "(string \<times> json) list"

text \<open>
  A response is what the handler hands to express: the status (\<open>res.status\<close>, 200 when
  the handler sets none), the headers set with \<open>res.setHeader\<close> in the order of the
  calls, and either a JSON body or the file stream piped into the response.
\<close>

datatype payload = Json json | FileStream string

record response =
  status :: nat
  headers :: "(string \<times> string) list"
  body :: payload

definition json_reply :: "nat \<Rightarrow> json \<Rightarrow> response" where
  "json_reply code j = \<lparr>status = code, headers = [], body = Json j\<rparr>"

text \<open>The field of a JSON body, \<open>None\<close> when the body has no such field.\<close>

definition body_field :: "response \<Rightarrow> string \<Rightarrow> json option" where
  "body_field r k = (case body r of Json (JObj kvs) \<Rightarrow> map_of kvs k | _ \<Rightarrow> None)"

section \<open>Process configuration\<close>

text \<open>\<open>process.env\<close>: a variable that is not set reads as \<open>undefined\<close>, here \<open>None\<close>.\<close>

record env =
  PDF_PASSWORD :: "string option"
  JWT_SECRET :: "string option"
  SERVE_PNGS_FOR_IOS_var :: "string option"

text \<open>\<open>process.env.SERVE_PNGS_FOR_IOS === 'true' || false\<close>\<close>

definition SERVE_PNGS_FOR_IOS :: "env \<Rightarrow> bool" where
  "SERVE_PNGS_FOR_IOS e = (SERVE_PNGS_FOR_IOS_var e = Some ''true'')"

section \<open>Tokens\<close>

text \<open>
  The claims the server signs at login: \<open>{ authenticated: true, timestamp: Date.now() }\<close>,
  the timestamp in milliseconds.
\<close>

record claims =
  authenticated :: bool
  timestamp :: int

text \<open>An exception a library call throws, with its message.\<close>

datatype js_error = Error string

text \<open>
  The jsonwebtoken package is not part of the repository; its two calls are modelled as
  the package documents them. Signatures are symbolic: a token records the key it was
  signed with, and its signature verifies under that key only. Beside the claims a token
  carries \<open>iat\<close> and, when it was signed with \<open>expiresIn\<close>, \<open>exp\<close>, both in whole
  seconds. A token that is absent or does not parse is \<open>Unparseable\<close>.
\<close>

datatype token = Unparseable string | Signed string claims int "int option"


text \<open>
  \<open>jwt.verify(token, secret)\<close> at clock \<open>now\<close>: it throws for a token that does not
  parse, without a key, for a signature made with another key, and for a token whose
  \<open>exp\<close> is not after the clock in whole seconds (\<open>floor(now / 1000) >= exp\<close>); otherwise
  it returns the claims.
\<close>

definition jsonwebtoken_verify :: "token \<Rightarrow> string option \<Rightarrow> int \<Rightarrow> js_error + claims" where
  "jsonwebtoken_verify tok secret now =
     (case tok of
        Unparseable raw \<Rightarrow> Inl (Error ''jwt malformed'')
      | Signed signing_key payload iat ex \<Rightarrow>
          (case secret of
             None \<Rightarrow> Inl (Error ''secret or public key must be provided'')
           | Some key \<Rightarrow>
               if key = [] then Inl (Error ''secret or public key must be provided'')
               else if signing_key \<noteq> key then Inl (Error ''invalid signature'')
               else (case ex of
                       None \<Rightarrow> Inr payload
                     | Some x \<Rightarrow>
                         if now div 1000 \<ge> x then Inl (Error ''jwt expired'') else Inr payload)))"

section \<open>Storage\<close>

text \<open>
  The two directories beside the server: the paths for which \<open>fs.existsSync\<close> holds, and
  the listing \<open>fs.readdirSync\<close> returns for the \<open>pngs\<close> directory, \<open>None\<close> when that
  directory does not exist. Every storage call a handler makes is logged, in order, with
  the path it was given.
\<close>

record filesystem =
  existing :: "string list"
  pngs :: "string list option"

datatype fs_op = ExistsSync string | ReaddirSync string | CreateReadStream string

definition existsSync :: "filesystem \<Rightarrow> string \<Rightarrow> bool" where
  "existsSync fs p = (p \<in> set (existing fs))"

text \<open>
  \<open>path.join\<close> on segments that are already normalised (the server's directory, a fixed
  directory name, a file name without separators): the segments joined by \<open>/\<close>.
\<close>

fun path_join :: "string list \<Rightarrow> string" where
  "path_join [] = ''.''"
| "path_join [s] = s"
| "path_join (s # t # ss) = s @ ''/'' @ path_join (t # ss)"

section \<open>File-name grammar\<close>

text \<open>The character class \<open>[a-zA-Z0-9\-_\.]\<close>.\<close>

definition name_char :: "char \<Rightarrow> bool" where
  "name_char c =
     (c \<in> set ''abcdefghijklmnopqrstuvwxyzABCDEFGHIJKLMNOPQRSTUVWXYZ0123456789-_.'')"

text \<open>
  A regular expression of the shape \<open>^[class]+suffix$\<close>, as a matcher: one character of
  the class is consumed, and then either the rest of the input is exactly the suffix or
  another character of the class is consumed.
\<close>

fun match_class_plus :: "(char \<Rightarrow> bool) \<Rightarrow> string \<Rightarrow> string \<Rightarrow> bool" where
  "match_class_plus cls suf [] = False"
| "match_class_plus cls suf (c # cs) = (cls c \<and> (cs = suf \<or> match_class_plus cls suf cs))"

text \<open>\<open>filename.match(/^[a-zA-Z0-9\-_\.]+\.pdf$/)\<close>, read as a truth value.\<close>

definition match_pdf_name :: "string \<Rightarrow> bool" where
  "match_pdf_name filename = match_class_plus name_char ''.pdf'' filename"

section \<open>The asset route \<open>GET /pdf/:filename\<close>\<close>

text \<open>
  \<open>verified\<close> is the outcome of \<open>jwt.verify(token, process.env.JWT_SECRET)\<close>, a call into
  the jsonwebtoken package: \<open>Inl\<close> when it throws (the handler's \<open>catch\<close>), \<open>Inr\<close> the
  decoded claims when it returns; for a token \<open>tok\<close> and an environment \<open>e\<close> it is
  \<open>jsonwebtoken_verify tok (JWT_SECRET e) now\<close>. \<open>now\<close> is \<open>Date.now()\<close>, \<open>dirname\<close> is
  \<open>__dirname\<close>. The first variant of the handler:
\<close>

definition pdf_headers :: "(string \<times> string) list" where
  "pdf_headers =
     [(''Content-Type'', ''application/pdf''),
      (''Cache-Control'', ''no-cache, no-store, must-revalidate''),
      (''Pragma'', ''no-cache''),
      (''Expires'', ''0''),
      (''X-Robots-Tag'', ''noindex, nofollow, noarchive, nosnippet'')]"

definition get_pdf ::
  "string \<Rightarrow> filesystem \<Rightarrow> js_error + claims \<Rightarrow> int \<Rightarrow> string \<Rightarrow> response \<times> fs_op list" where
  "get_pdf dirname fs verified now filename =
     (case verified of
        Inl err \<Rightarrow> (json_reply 401 (JObj [(''error'', JStr ''Invalid token'')]), [])
      | Inr decoded \<Rightarrow>
          if \<not> authenticated decoded
          then (json_reply 401 (JObj [(''error'', JStr ''Unauthorized'')]), [])
          else let tokenAge = now - timestamp decoded in
            if tokenAge > 3600000
            then (json_reply 401 (JObj [(''error'', JStr ''Token expired'')]), [])
            else if \<not> match_pdf_name filename
            then (json_reply 400 (JObj [(''error'', JStr ''Invalid filename'')]), [])
            else let filePath = path_join [dirname, ''pdfs'', filename] in
              if \<not> existsSync fs filePath
              then (json_reply 404 (JObj [(''error'', JStr ''PDF not found'')]),
                    [ExistsSync filePath])
              else (\<lparr>status = 200, headers = pdf_headers, body = FileStream filePath\<rparr>,
                    [ExistsSync filePath, CreateReadStream filePath]))"

text \<open>The second variant also sets \<open>Content-Disposition\<close>.\<close>

definition pdf_headers2 :: "string \<Rightarrow> (string \<times> string) list" where
  "pdf_headers2 filename =
     [(''Content-Type'', ''application/pdf''),
      (''Content-Disposition'', ''inline; filename=\"'' @ filename @ ''\"''),
      (''Cache-Control'', ''no-cache, no-store, must-revalidate''),
      (''Pragma'', ''no-cache''),
      (''Expires'', ''0''),
      (''X-Robots-Tag'', ''noindex, nofollow, noarchive, nosnippet'')]"

definition get_pdf2 ::
  "string \<Rightarrow> filesystem \<Rightarrow> js_error + claims \<Rightarrow> int \<Rightarrow> string \<Rightarrow> response \<times> fs_op list" where
  "get_pdf2 dirname fs verified now filename =
     (case verified of
        Inl err \<Rightarrow> (json_reply 401 (JObj [(''error'', JStr ''Invalid token'')]), [])
      | Inr decoded \<Rightarrow>
          if \<not> authenticated decoded
          then (json_reply 401 (JObj [(''error'', JStr ''Unauthorized'')]), [])
          else let tokenAge = now - timestamp decoded in
            if tokenAge > 3600000
            then (json_reply 401 (JObj [(''error'', JStr ''Token expired'')]), [])
            else if \<not> match_pdf_name filename
            then (json_reply 400 (JObj [(''error'', JStr ''Invalid filename'')]), [])
            else let filePath = path_join [dirname, ''pdfs'', filename] in
              if \<not> existsSync fs filePath
              then (json_reply 404 (JObj [(''error'', JStr ''PDF not found'')]),
                    [ExistsSync filePath])
              else (\<lparr>status = 200, headers = pdf_headers2 filename,
                     body = FileStream filePath\<rparr>,
                    [ExistsSync filePath, CreateReadStream filePath]))"

section \<open>The derivative manifest\<close>

text \<open>
  \<open>s.replace(pat, rep)\<close> with a string pattern: the first occurrence of \<open>pat\<close>, scanning
  from the left, is replaced; a string without the pattern is returned unchanged.
\<close>

fun replace_first :: "string \<Rightarrow> string \<Rightarrow> string \<Rightarrow> string" where
  "replace_first pat rep [] = (if pat = [] then rep else [])"
| "replace_first pat rep (c # cs) =
     (if take (length pat) (c # cs) = pat then rep @ drop (length pat) (c # cs)
      else c # replace_first pat rep cs)"

definition startsWith :: "string \<Rightarrow> string \<Rightarrow> bool" where
  "startsWith s p = (take (length p) s = p)"

definition endsWith :: "string \<Rightarrow> string \<Rightarrow> bool" where
  "endsWith s p = (length p \<le> length s \<and> drop (length s - length p) s = p)"

text \<open>The class \<open>\d\<close>.\<close>

definition is_digit :: "char \<Rightarrow> bool" where
  "is_digit c = (c \<in> set ''0123456789'')"

text \<open>
  \<open>(\d+)suffix$\<close> matched at the head of the input: the digits consumed, when the match
  succeeds.
\<close>

fun digits_then :: "string \<Rightarrow> string \<Rightarrow> string option" where
  "digits_then suf [] = None"
| "digits_then suf (c # cs) =
     (if is_digit c
      then (if cs = suf then Some [c] else map_option ((#) c) (digits_then suf cs))
      else None)"

text \<open>
  \<open>a.match(/-(\d+)\.png$/)?.[1]\<close>: the pattern is tried at each position from the left;
  the value is the first group of the first match, \<open>None\<close> for \<open>undefined\<close>.
\<close>

fun match_page :: "string \<Rightarrow> string option" where
  "match_page [] = None"
| "match_page (c # cs) =
     (if c = CHR ''-''
      then (case digits_then ''.png'' cs of Some ds \<Rightarrow> Some ds | None \<Rightarrow> match_page cs)
      else match_page cs)"

text \<open>
  \<open>parseInt\<close> on a non-empty run of decimal digits, the only arguments it is given here:
  the decimal value, leading zeros included. JavaScript numbers are doubles: this is the
  number \<open>parseInt\<close> returns as long as the value is at most \<open>Number.MAX_SAFE_INTEGER\<close>
  (\<open>2^53 - 1\<close>); above it \<open>parseInt\<close> rounds, which is not represented. What is proved
  about the order of pages is therefore stated for page numbers within that bound.
\<close>

definition parseInt :: "string \<Rightarrow> int" where
  "parseInt ds = foldl (\<lambda>n c. 10 * n + (int (of_char c) - 48)) 0 ds"

definition MAX_SAFE_INTEGER :: int where
  "MAX_SAFE_INTEGER = 9007199254740991"

text \<open>\<open>parseInt(a.match(/-(\d+)\.png$/)?.[1] || '0')\<close>\<close>

definition page_number :: "string \<Rightarrow> int" where
  "page_number a = parseInt (case match_page a of Some ds \<Rightarrow> ds | None \<Rightarrow> ''0'')"

text \<open>The comparator handed to \<open>sort\<close>: \<open>(a, b) => aNum - bNum\<close>.\<close>

definition compare_pages :: "string \<Rightarrow> string \<Rightarrow> int" where
  "compare_pages a b = page_number a - page_number b"

text \<open>
  \<open>Array.prototype.sort\<close> with a comparator is stable: elements the comparator does not
  separate keep their order. Insertion from the right computes that ordering.
\<close>

fun insert_by :: "('a \<Rightarrow> 'a \<Rightarrow> int) \<Rightarrow> 'a \<Rightarrow> 'a list \<Rightarrow> 'a list" where
  "insert_by cmp x [] = [x]"
| "insert_by cmp x (y # ys) = (if cmp x y \<le> 0 then x # y # ys else y # insert_by cmp x ys)"

definition array_sort :: "('a \<Rightarrow> 'a \<Rightarrow> int) \<Rightarrow> 'a list \<Rightarrow> 'a list" where
  "array_sort cmp xs = foldr (insert_by cmp) xs []"

definition getPngListForPdf ::
  "string \<Rightarrow> filesystem \<Rightarrow> string \<Rightarrow> string list \<times> fs_op list" where
  "getPngListForPdf dirname fs pdfFilename =
     (let baseName = replace_first ''.pdf'' '''' pdfFilename;
          pngsDir = path_join [dirname, ''pngs'']
      in case pngs fs of
           None \<Rightarrow> ([], [ExistsSync pngsDir])
         | Some files \<Rightarrow>
             (array_sort compare_pages
                (filter (\<lambda>file. startsWith file (baseName @ ''-'') \<and> endsWith file ''.png'') files),
              [ExistsSync pngsDir, ReaddirSync pngsDir]))"

section \<open>The login route \<open>POST /auth\<close>\<close>

text \<open>
  The error-handling middleware answers an exception that a handler lets escape:
  \<open>res.status(500).json({ error: 'Something went wrong!' })\<close>.
\<close>

definition error_middleware :: "js_error \<Rightarrow> response" where
  "error_middleware err = json_reply 500 (JObj [(''error'', JStr ''Something went wrong!'')])"

text \<open>
  \<open>jwt_sign\<close> is \<open>jwt.sign\<close> of the jsonwebtoken package, applied to the claims, the
  signing key and the \<open>expiresIn\<close> option: \<open>Inr\<close> the token string when it returns,
  \<open>Inl\<close> when it throws (it does without a signing key). The handler has no \<open>try\<close>
  around the call, so the exception goes to the error-handling middleware. \<open>password\<close> is
  the body's field, \<open>None\<close> when the body has none; it is compared with \<open>===\<close>. The first
  variant:
\<close>

definition post_auth ::
  "(claims \<Rightarrow> string option \<Rightarrow> string \<Rightarrow> js_error + string) \<Rightarrow> env \<Rightarrow> int \<Rightarrow> string option \<Rightarrow>
     response" where
  "post_auth jwt_sign e now password =
     (if password = PDF_PASSWORD e then
        case jwt_sign \<lparr>authenticated = True, timestamp = now\<rparr> (JWT_SECRET e) ''1h'' of
          Inl err \<Rightarrow> error_middleware err
        | Inr token \<Rightarrow>
            json_reply 200
              (JObj [(''success'', JBool True), (''token'', JStr token), (''expiresIn'', JNum 3600)])
      else json_reply 401
             (JObj [(''success'', JBool False), (''message'', JStr ''Invalid password'')]))"

text \<open>
  The second variant reads \<open>isIOS\<close> (here its truth value) and \<open>pdfFilename\<close> (a string,
  or \<open>None\<close> when absent; the empty string is falsy) from the body.
\<close>

definition post_auth2 ::
  "(claims \<Rightarrow> string option \<Rightarrow> string \<Rightarrow> js_error + string) \<Rightarrow> env \<Rightarrow> string \<Rightarrow> filesystem \<Rightarrow> int \<Rightarrow>
     string option \<Rightarrow> bool \<Rightarrow> string option \<Rightarrow> response \<times> fs_op list" where
  "post_auth2 jwt_sign e dirname fs now password isIOS pdfFilename =
     (if password = PDF_PASSWORD e then
        case jwt_sign \<lparr>authenticated = True, timestamp = now\<rparr> (JWT_SECRET e) ''1h'' of
          Inl err \<Rightarrow> (error_middleware err, [])
        | Inr token \<Rightarrow>
            let standard = json_reply 200
              (JObj [(''success'', JBool True), (''token'', JStr token), (''expiresIn'', JNum 3600)])
            in case (if SERVE_PNGS_FOR_IOS e \<and> isIOS then pdfFilename else None) of
                 None \<Rightarrow> (standard, [])
               | Some name \<Rightarrow>
                   if name = [] then (standard, [])
                   else let (pngFiles, ops) = getPngListForPdf dirname fs name in
                     if length pngFiles > 0
                     then (json_reply 200
                             (JObj [(''success'', JBool True), (''token'', JStr token),
                                    (''expiresIn'', JNum 3600), (''usePngMode'', JBool True),
                                    (''pngFiles'', JArr (map JStr pngFiles))]), ops)
                     else (standard, ops)
      else (json_reply 401
              (JObj [(''success'', JBool False), (''message'', JStr ''Invalid password'')]), []))"

section \<open>Rate limiting\<close>

text \<open>The options handed to \<open>rateLimit\<close> of the express-rate-limit package.\<close>

record rate_limit_options =
  windowMs :: int
  max_requests :: nat
  message :: string

definition limiter :: rate_limit_options where
  "limiter = \<lparr>windowMs = 15 * 60 * 1000, max_requests = 100,
     message = ''Too many requests from this IP, please try again later.''\<rparr>"

definition pdfLimiter :: rate_limit_options where
  "pdfLimiter = \<lparr>windowMs = 5 * 60 * 1000, max_requests = 10,
     message = ''Too many PDF requests, please try again later.''\<rparr>"

text \<open>The second variant raises the ceiling of the asset route to 100.\<close>

definition pdfLimiter2 :: rate_limit_options where
  "pdfLimiter2 = \<lparr>windowMs = 5 * 60 * 1000, max_requests = 100,
     message = ''Too many PDF requests, please try again later.''\<rparr>"

datatype routeClass = general | asset

record RateWindow =
  window_start :: int
  window_count :: nat

type_synonym rate_table = "string \<times> routeClass \<Rightarrow> RateWindow option"

text \<open>
  Modelled from the spec: the window accounting of \<open>RateLimiter.allow\<close>. The source only
  configures the express-rate-limit package, whose code is not part of the repository. The
  spec: if no window exists for the key or the existing window's age exceeds the window
  width, start a fresh window with count 1 and allow; otherwise increment, and allow if the
  incremented count is at most the ceiling, else deny. The options of a route class are
  those the source configures for it.
\<close>

definition allow ::
  "(routeClass \<Rightarrow> rate_limit_options) \<Rightarrow> rate_table \<Rightarrow> string \<times> routeClass \<Rightarrow> int \<Rightarrow> bool \<times> rate_table" where
  "allow config table key now =
     (let opts = config (snd key);
          fresh = \<lparr>window_start = now, window_count = 1\<rparr>
      in case table key of
           None \<Rightarrow> (True, table(key \<mapsto> fresh))
         | Some w \<Rightarrow>
             if now - window_start w > windowMs opts then (True, table(key \<mapsto> fresh))
             else let c = window_count w + 1
                  in (c \<le> max_requests opts, table(key \<mapsto> w\<lparr>window_count := c\<rparr>)))"

text \<open>The options per route class in the first and in the second variant of the server.\<close>

fun route_options :: "routeClass \<Rightarrow> rate_limit_options" where
  "route_options general = limiter"
| "route_options asset = pdfLimiter"

fun route_options2 :: "routeClass \<Rightarrow> rate_limit_options" where
  "route_options2 general = limiter"
| "route_options2 asset = pdfLimiter2"

text \<open>Consecutive calls for one key, at the given times; the answers in order.\<close>

fun allow_calls ::
  "(routeClass \<Rightarrow> rate_limit_options) \<Rightarrow> rate_table \<Rightarrow> string \<times> routeClass \<Rightarrow> int list \<Rightarrow>
     bool list \<times> rate_table" where
  "allow_calls config table key [] = ([], table)"
| "allow_calls config table key (t # ts) =
     (case allow config table key t of
        (ok, table') \<Rightarrow>
          (case allow_calls config table' key ts of (oks, table'') \<Rightarrow> (ok # oks, table'')))"

section \<open>Properties of the file-name grammar\<close>

text \<open>The matcher accepts exactly a non-empty run of class characters followed by the suffix.\<close>

lemma match_class_plus_iff:
  "match_class_plus cls suf s \<longleftrightarrow> (\<exists>stem. stem \<noteq> [] \<and> list_all cls stem \<and> s = stem @ suf)"
proof (induction s)
  case Nil
  then show ?case by simp
next
  case (Cons c cs)
  show ?case
  proof
    assume "match_class_plus cls suf (c # cs)"
    then have c: "cls c" and rest: "cs = suf \<or> match_class_plus cls suf cs" by simp_all
    from rest show "\<exists>stem. stem \<noteq> [] \<and> list_all cls stem \<and> c # cs = stem @ suf"
    proof
      assume "cs = suf"
      with c have "[c] \<noteq> [] \<and> list_all cls [c] \<and> c # cs = [c] @ suf" by simp
      then show ?thesis by blast
    next
      assume "match_class_plus cls suf cs"
      with Cons.IH obtain stem where "stem \<noteq> []" "list_all cls stem" "cs = stem @ suf" by blast
      with c have "c # stem \<noteq> [] \<and> list_all cls (c # stem) \<and> c # cs = (c # stem) @ suf" by simp
      then show ?thesis by blast
    qed
  next
    assume "\<exists>stem. stem \<noteq> [] \<and> list_all cls stem \<and> c # cs = stem @ suf"
    then obtain stem where s: "stem \<noteq> []" "list_all cls stem" "c # cs = stem @ suf" by blast
    then obtain d ds where stem: "stem = d # ds" by (cases stem) auto
    with s have c: "cls c" and cs: "cs = ds @ suf" and ds: "list_all cls ds" by auto
    show "match_class_plus cls suf (c # cs)"
    proof (cases ds)
      case Nil
      with c cs show ?thesis by simp
    next
      case (Cons e es)
      with ds cs have "\<exists>stem. stem \<noteq> [] \<and> list_all cls stem \<and> cs = stem @ suf" by blast
      with Cons.IH c show ?thesis by simp
    qed
  qed
qed

lemma match_pdf_name_iff:
  "match_pdf_name filename \<longleftrightarrow>
     (\<exists>stem. stem \<noteq> [] \<and> list_all name_char stem \<and> filename = stem @ ''.pdf'')"
  by (simp add: match_pdf_name_def match_class_plus_iff)

lemma match_pdf_name_chars:
  assumes "match_pdf_name filename"
  shows "list_all name_char filename"
proof -
  from assms obtain stem where "list_all name_char stem" "filename = stem @ ''.pdf''"
    unfolding match_pdf_name_iff by blast
  then show ?thesis by (simp add: name_char_def)
qed

lemma slash_not_name_char: "\<not> name_char (CHR ''/'')" "\<not> name_char (CHR 0x5C)"
  by (simp_all add: name_char_def)

lemma dotted_name_matches: "match_pdf_name ''..pdf''" "\<not> match_pdf_name ''.pdf''"
  by (simp_all add: match_pdf_name_def name_char_def)

section \<open>Properties of the asset route\<close>




lemma verify_throws_or_returns:
  "(\<exists>err. jsonwebtoken_verify tok secret now = Inl err)
   \<or> (\<exists>d. jsonwebtoken_verify tok secret now = Inr d)"
  by (cases "jsonwebtoken_verify tok secret now") auto











text \<open>
  C2. The name is resolved to a storage path only if it matches the grammar
  \<open>^[A-Za-z0-9._-]+\.pdf$\<close> over the whole string. A name containing \<open>/\<close> or a backslash, a
  name whose first path segment is \<open>..\<close>, and a name that does not end in \<open>.pdf\<close> do not
  match; a name that does not match causes no storage call, and once the token checks have
  passed it is answered with the 400 \<open>Invalid filename\<close>. (A path segment is a whole
  component: a name that merely begins with two dots, such as \<open>..pdf\<close>, is one ordinary
  segment and matches the grammar, see \<open>dotted_name_matches\<close>.)
\<close>

theorem invalid_name_rejected:
  "(match_pdf_name filename \<longleftrightarrow>
      (\<exists>stem. stem \<noteq> [] \<and> list_all name_char stem \<and> filename = stem @ ''.pdf''))
   \<and> (CHR ''/'' \<in> set filename \<or> CHR 0x5C \<in> set filename
        \<or> filename = ''..'' \<or> take 3 filename = ''../'' \<or> take 3 filename = [CHR ''.'', CHR ''.'', CHR 0x5C]
        \<or> \<not> (\<exists>stem. filename = stem @ ''.pdf'')
      \<longrightarrow> \<not> match_pdf_name filename)
   \<and> (\<not> match_pdf_name filename \<longrightarrow>
        snd (get_pdf dirname fs verified now filename) = []
      \<and> snd (get_pdf2 dirname fs verified now filename) = [])
   \<and> (\<forall>d. \<not> match_pdf_name filename \<and> verified = Inr d \<and> authenticated d
            \<and> now - timestamp d \<le> 3600 * 1000 \<longrightarrow>
        get_pdf dirname fs verified now filename =
          (json_reply 400 (JObj [(''error'', JStr ''Invalid filename'')]), [])
      \<and> get_pdf2 dirname fs verified now filename =
          (json_reply 400 (JObj [(''error'', JStr ''Invalid filename'')]), []))"
proof (intro conjI)
  show "match_pdf_name filename \<longleftrightarrow>
      (\<exists>stem. stem \<noteq> [] \<and> list_all name_char stem \<and> filename = stem @ ''.pdf'')"
    by (rule match_pdf_name_iff)
next
  show "CHR ''/'' \<in> set filename \<or> CHR 0x5C \<in> set filename
        \<or> filename = ''..'' \<or> take 3 filename = ''../'' \<or> take 3 filename = [CHR ''.'', CHR ''.'', CHR 0x5C]
        \<or> \<not> (\<exists>stem. filename = stem @ ''.pdf'')
      \<longrightarrow> \<not> match_pdf_name filename"
  proof (intro impI notI)
    assume bad: "CHR ''/'' \<in> set filename \<or> CHR 0x5C \<in> set filename
        \<or> filename = ''..'' \<or> take 3 filename = ''../'' \<or> take 3 filename = [CHR ''.'', CHR ''.'', CHR 0x5C]
        \<or> \<not> (\<exists>stem. filename = stem @ ''.pdf'')"
    assume m: "match_pdf_name filename"
    then have chars: "\<forall>c \<in> set filename. name_char c"
      using match_pdf_name_chars by (simp add: list_all_iff)
    from m have ext: "\<exists>stem. filename = stem @ ''.pdf''"
      unfolding match_pdf_name_iff by blast
    have no_sep: "CHR ''/'' \<notin> set filename" "CHR 0x5C \<notin> set filename"
      using chars slash_not_name_char by blast+
    have "take 3 filename = ''../'' \<Longrightarrow> CHR ''/'' \<in> set filename"
      by (metis in_set_takeD list.set_intros(1,2))
    moreover have "take 3 filename = [CHR ''.'', CHR ''.'', CHR 0x5C] \<Longrightarrow> CHR 0x5C \<in> set filename"
      by (metis in_set_takeD list.set_intros(1,2))
    moreover have "filename \<noteq> ''..''" using ext by auto
    ultimately show False using bad no_sep ext by blast
  qed
next
  show "\<not> match_pdf_name filename \<longrightarrow>
        snd (get_pdf dirname fs verified now filename) = []
      \<and> snd (get_pdf2 dirname fs verified now filename) = []"
    by (cases verified) (simp_all add: get_pdf_def get_pdf2_def Let_def)
next
  show "\<forall>d. \<not> match_pdf_name filename \<and> verified = Inr d \<and> authenticated d
            \<and> now - timestamp d \<le> 3600 * 1000 \<longrightarrow>
        get_pdf dirname fs verified now filename =
          (json_reply 400 (JObj [(''error'', JStr ''Invalid filename'')]), [])
      \<and> get_pdf2 dirname fs verified now filename =
          (json_reply 400 (JObj [(''error'', JStr ''Invalid filename'')]), [])"
    by (simp add: get_pdf_def get_pdf2_def Let_def)
qed

text \<open>The traversal attempt \<open>../../etc/passwd.pdf\<close> with a good token.\<close>

theorem invalid_name_rejected_witness:
  "\<not> match_pdf_name ''../../etc/passwd.pdf''
   \<and> get_pdf ''/app'' \<lparr>existing = [''/etc/passwd.pdf''], pngs = None\<rparr>
        (Inr \<lparr>authenticated = True, timestamp = 0\<rparr>) 5 ''../../etc/passwd.pdf'' =
          (json_reply 400 (JObj [(''error'', JStr ''Invalid filename'')]), [])"
proof -
  have slash: "CHR ''/'' \<in> set ''../../etc/passwd.pdf''" by simp
  have no: "\<not> match_pdf_name ''../../etc/passwd.pdf''"
    using invalid_name_rejected [of "''../../etc/passwd.pdf''"] slash by blast
  have tok: "authenticated \<lparr>authenticated = True, timestamp = 0\<rparr>
      \<and> 5 - timestamp \<lparr>authenticated = True, timestamp = 0\<rparr> \<le> 3600 * 1000" by simp
  show ?thesis
    using no tok invalid_name_rejected [of "''../../etc/passwd.pdf''" "''/app''"
      "\<lparr>existing = [''/etc/passwd.pdf''], pngs = None\<rparr>"
      "Inr \<lparr>authenticated = True, timestamp = 0\<rparr>" 5]
    by blast
qed




text \<open>
  C4. The existence check and the read happen only after the name has passed the grammar:
  a handler that touches storage was given a grammar-valid name, a name that fails the
  grammar causes no storage call at all, a 404 is only ever the answer to a grammar-valid
  name, and every storage call is on the path of that name inside the \<open>pdfs\<close> directory.
\<close>

theorem storage_only_after_validation:
  "(snd (get_pdf dirname fs verified now filename) \<noteq> [] \<longrightarrow> match_pdf_name filename)
   \<and> (snd (get_pdf2 dirname fs verified now filename) \<noteq> [] \<longrightarrow> match_pdf_name filename)
   \<and> (\<not> match_pdf_name filename \<longrightarrow>
        snd (get_pdf dirname fs verified now filename) = []
      \<and> snd (get_pdf2 dirname fs verified now filename) = [])
   \<and> (status (fst (get_pdf dirname fs verified now filename)) = 404 \<longrightarrow> match_pdf_name filename)
   \<and> (status (fst (get_pdf2 dirname fs verified now filename)) = 404 \<longrightarrow> match_pdf_name filename)
   \<and> (\<forall>op \<in> set (snd (get_pdf dirname fs verified now filename)).
        op = ExistsSync (path_join [dirname, ''pdfs'', filename])
      \<or> op = CreateReadStream (path_join [dirname, ''pdfs'', filename]))
   \<and> (\<forall>op \<in> set (snd (get_pdf2 dirname fs verified now filename)).
        op = ExistsSync (path_join [dirname, ''pdfs'', filename])
      \<or> op = CreateReadStream (path_join [dirname, ''pdfs'', filename]))"
  by (cases verified) (auto simp: get_pdf_def get_pdf2_def json_reply_def Let_def)

text \<open>The encoded traversal attempt touches no storage; a valid name that is absent gives 404.\<close>

theorem storage_only_after_validation_witness:
  "snd (get_pdf ''/app'' \<lparr>existing = [''/app/secret.pdf''], pngs = None\<rparr>
        (Inr \<lparr>authenticated = True, timestamp = 0\<rparr>) 5 ''..%2f..%2fsecret.pdf'') = []
   \<and> status (fst (get_pdf ''/app'' \<lparr>existing = [], pngs = None\<rparr>
        (Inr \<lparr>authenticated = True, timestamp = 0\<rparr>) 5 ''valid.pdf'')) = 404
   \<and> match_pdf_name ''valid.pdf''"
proof -
  have no: "\<not> match_pdf_name ''..%2f..%2fsecret.pdf''"
    by (simp add: match_pdf_name_def name_char_def)
  have nf: "status (fst (get_pdf ''/app'' \<lparr>existing = [], pngs = None\<rparr>
        (Inr \<lparr>authenticated = True, timestamp = 0\<rparr>) 5 ''valid.pdf'')) = 404"
    by (simp add: get_pdf_def match_pdf_name_def name_char_def existsSync_def json_reply_def)
  show ?thesis
    using no nf
      storage_only_after_validation [of "''/app''" "\<lparr>existing = [''/app/secret.pdf''], pngs = None\<rparr>"
        "Inr \<lparr>authenticated = True, timestamp = 0\<rparr>" 5 "''..%2f..%2fsecret.pdf''"]
      storage_only_after_validation [of "''/app''" "\<lparr>existing = [], pngs = None\<rparr>"
        "Inr \<lparr>authenticated = True, timestamp = 0\<rparr>" 5 "''valid.pdf''"]
    by blast
qed

section \<open>Properties of the derivative manifest\<close>

text \<open>
  The page pattern finds exactly the names that end in a dash, a non-empty run of digits
  and \<open>.png\<close>, and returns that run.
\<close>

lemma digits_then_Some:
  "digits_then suf s = Some ds \<Longrightarrow> ds \<noteq> [] \<and> list_all is_digit ds \<and> s = ds @ suf"
proof (induction s arbitrary: ds)
  case Nil
  then show ?case by simp
next
  case (Cons c cs)
  from Cons.prems have c: "is_digit c" by (simp split: if_splits)
  show ?case
  proof (cases "cs = suf")
    case True
    with Cons.prems c show ?thesis by auto
  next
    case False
    with Cons.prems c obtain ds' where ds': "digits_then suf cs = Some ds'" "ds = c # ds'"
      by auto
    with Cons.IH c show ?thesis by simp
  qed
qed

lemma digits_then_complete:
  "ds \<noteq> [] \<Longrightarrow> list_all is_digit ds \<Longrightarrow> digits_then suf (ds @ suf) = Some ds"
proof (induction ds)
  case Nil
  then show ?case by simp
next
  case (Cons d ds)
  show ?case
  proof (cases ds)
    case Nil
    with Cons.prems show ?thesis by simp
  next
    case (Cons e es)
    with Cons.prems Cons.IH have "digits_then suf (ds @ suf) = Some ds" by simp
    moreover have "ds @ suf \<noteq> suf" using Cons by simp
    ultimately show ?thesis using Cons.prems by simp
  qed
qed

lemma dash_not_digit: "\<not> is_digit (CHR ''-'')"
  by (simp add: is_digit_def)

lemma match_page_Some:
  "match_page a = Some ds \<Longrightarrow>
     \<exists>pre. a = pre @ CHR ''-'' # ds @ ''.png'' \<and> ds \<noteq> [] \<and> list_all is_digit ds"
proof (induction a)
  case Nil
  then show ?case by simp
next
  case (Cons c cs)
  show ?case
  proof (cases "c = CHR ''-'' \<and> digits_then ''.png'' cs \<noteq> None")
    case True
    then obtain ds' where ds': "digits_then ''.png'' cs = Some ds'" by blast
    with True Cons.prems have "ds' = ds" by simp
    with ds' digits_then_Some [of "''.png''" cs ds]
    have "c # cs = [] @ CHR ''-'' # ds @ ''.png'' \<and> ds \<noteq> [] \<and> list_all is_digit ds"
      using True by simp
    then show ?thesis by blast
  next
    case False
    with Cons.prems have "match_page cs = Some ds" by (auto split: if_splits option.splits)
    with Cons.IH obtain pre where "cs = pre @ CHR ''-'' # ds @ ''.png''" "ds \<noteq> []"
      "list_all is_digit ds" by blast
    then have "c # cs = (c # pre) @ CHR ''-'' # ds @ ''.png'' \<and> ds \<noteq> [] \<and> list_all is_digit ds"
      by simp
    then show ?thesis by blast
  qed
qed

lemma match_page_complete:
  assumes "ds \<noteq> []" "list_all is_digit ds"
  shows "match_page (pre @ CHR ''-'' # ds @ ''.png'') = Some ds"
proof (induction pre)
  case Nil
  from assms show ?case by (simp add: digits_then_complete)
next
  case (Cons c pre)
  have "digits_then ''.png'' (pre @ CHR ''-'' # ds @ ''.png'') = None"
  proof (rule ccontr)
    assume "digits_then ''.png'' (pre @ CHR ''-'' # ds @ ''.png'') \<noteq> None"
    then obtain ds' where "digits_then ''.png'' (pre @ CHR ''-'' # ds @ ''.png'') = Some ds'"
      by blast
    then have d: "list_all is_digit ds'" and eq: "pre @ CHR ''-'' # ds @ ''.png'' = ds' @ ''.png''"
      using digits_then_Some by blast+
    from eq have "(pre @ CHR ''-'' # ds) @ ''.png'' = ds' @ ''.png''" by simp
    then have "pre @ CHR ''-'' # ds = ds'" by (simp only: append_same_eq)
    then have "CHR ''-'' \<in> set ds'" by auto
    with d dash_not_digit show False by (auto simp: list_all_iff)
  qed
  with Cons.IH show ?case by simp
qed

lemma parseInt_zero: "parseInt ''0'' = 0"
  by (simp add: parseInt_def)

lemma page_number_parsed:
  "ds \<noteq> [] \<Longrightarrow> list_all is_digit ds \<Longrightarrow> page_number (pre @ CHR ''-'' # ds @ ''.png'') = parseInt ds"
  by (simp add: page_number_def match_page_complete)

lemma page_number_default:
  assumes "\<not> (\<exists>pre ds. a = pre @ CHR ''-'' # ds @ ''.png'' \<and> ds \<noteq> [] \<and> list_all is_digit ds)"
  shows "page_number a = 0"
proof -
  have "match_page a = None"
  proof (cases "match_page a")
    case None
    then show ?thesis .
  next
    case (Some ds)
    with match_page_Some assms show ?thesis by blast
  qed
  then show ?thesis by (simp add: page_number_def parseInt_zero)
qed

text \<open>Sorting with the page comparator permutes the entries and orders them by page.\<close>

lemma mset_insert_by: "mset (insert_by cmp x ys) = add_mset x (mset ys)"
  by (induction ys) auto

lemma mset_array_sort: "mset (array_sort cmp xs) = mset xs"
  by (induction xs) (auto simp: array_sort_def mset_insert_by)

lemma set_insert_by: "set (insert_by cmp x ys) = insert x (set ys)"
  by (induction ys) auto

lemma sorted_insert_by_key:
  fixes f :: "'a \<Rightarrow> int"
  assumes "sorted (map f ys)"
  shows "sorted (map f (insert_by (\<lambda>a b. f a - f b) x ys))"
  using assms by (induction ys) (auto simp: set_insert_by)

lemma sorted_array_sort_key:
  fixes f :: "'a \<Rightarrow> int"
  shows "sorted (map f (array_sort (\<lambda>a b. f a - f b) xs))"
  by (induction xs) (auto simp: array_sort_def sorted_insert_by_key)

lemma compare_pages_key: "compare_pages = (\<lambda>a b. page_number a - page_number b)"
  by (simp add: compare_pages_def fun_eq_iff)

lemma sorted_by_page: "sorted (map page_number (array_sort compare_pages xs))"
  unfolding compare_pages_key by (rule sorted_array_sort_key)

text \<open>The sort is stable: entries with the same page number keep the order of the listing.\<close>

lemma filter_insert_by_other:
  fixes f :: "'a \<Rightarrow> int"
  shows "f x \<noteq> k \<Longrightarrow> filter (\<lambda>y. f y = k) (insert_by (\<lambda>a b. f a - f b) x ys) = filter (\<lambda>y. f y = k) ys"
  by (induction ys) auto

lemma filter_insert_by_same:
  fixes f :: "'a \<Rightarrow> int"
  shows "sorted (map f ys) \<Longrightarrow>
    filter (\<lambda>y. f y = f x) (insert_by (\<lambda>a b. f a - f b) x ys) = x # filter (\<lambda>y. f y = f x) ys"
  by (induction ys) (auto simp: filter_insert_by_other)

lemma array_sort_stable:
  fixes f :: "'a \<Rightarrow> int"
  shows "filter (\<lambda>y. f y = k) (array_sort (\<lambda>a b. f a - f b) xs) = filter (\<lambda>y. f y = k) xs"
proof (induction xs)
  case Nil
  then show ?case by (simp add: array_sort_def)
next
  case (Cons x xs)
  have s: "sorted (map f (array_sort (\<lambda>a b. f a - f b) xs))" by (rule sorted_array_sort_key)
  have unfold: "array_sort (\<lambda>a b. f a - f b) (x # xs) =
    insert_by (\<lambda>a b. f a - f b) x (array_sort (\<lambda>a b. f a - f b) xs)"
    by (simp add: array_sort_def)
  show ?case
  proof (cases "f x = k")
    case True
    with filter_insert_by_same [OF s, of x] Cons.IH unfold show ?thesis by simp
  next
    case False
    with filter_insert_by_other [of f x k] Cons.IH unfold show ?thesis by simp
  qed
qed

lemma set_array_sort: "set (array_sort cmp xs) = set xs"
  by (metis mset_array_sort set_mset_mset)

text \<open>
  C5. For every primary name and every storage listing whose page numbers are within the
  range in which JavaScript numbers are exact (at most \<open>2^53 - 1\<close>), the manifest is
  sorted ascending by page number. The page number of an entry is the decimal value of the
  digits of its \<open>-<n>.png\<close> suffix, and 0 for an entry without such a suffix; such an
  entry is still part of the manifest, which for every listing holds exactly the entries
  with the prefix \<open><base>-\<close> and the suffix \<open>.png\<close>. For the listing \<open>report-2.png,
  report-1.png, report-10.png\<close> the manifest of \<open>report.pdf\<close> is \<open>report-1.png,
  report-2.png, report-10.png\<close>; an absent directory, an empty listing and a listing
  without matching entries give the empty manifest.
\<close>

theorem manifest_sorted_by_page:
  "(\<forall>files. pngs fs = Some files
         \<and> (\<forall>file \<in> set files.
               startsWith file (replace_first ''.pdf'' '''' pdfFilename @ ''-'') \<and> endsWith file ''.png''
               \<longrightarrow> page_number file \<le> MAX_SAFE_INTEGER) \<longrightarrow>
         sorted (map page_number (fst (getPngListForPdf dirname fs pdfFilename))))
   \<and> (\<forall>pre ds. ds \<noteq> [] \<and> list_all is_digit ds \<and> parseInt ds \<le> MAX_SAFE_INTEGER \<longrightarrow>
         page_number (pre @ CHR ''-'' # ds @ ''.png'') = parseInt ds)
   \<and> (\<forall>a. \<not> (\<exists>pre ds. a = pre @ CHR ''-'' # ds @ ''.png'' \<and> ds \<noteq> [] \<and> list_all is_digit ds) \<longrightarrow>
         page_number a = 0)
   \<and> (\<forall>files. pngs fs = Some files \<longrightarrow>
         mset (fst (getPngListForPdf dirname fs pdfFilename)) =
         mset (filter (\<lambda>file. startsWith file (replace_first ''.pdf'' '''' pdfFilename @ ''-'')
                              \<and> endsWith file ''.png'') files))
   \<and> fst (getPngListForPdf dirname
            \<lparr>existing = pdfs, pngs = Some [''report-2.png'', ''report-1.png'', ''report-10.png'']\<rparr>
            ''report.pdf'') = [''report-1.png'', ''report-2.png'', ''report-10.png'']
   \<and> (pngs fs = None \<or> pngs fs = Some [] \<longrightarrow> fst (getPngListForPdf dirname fs pdfFilename) = [])
   \<and> (\<forall>files. pngs fs = Some files
         \<and> (\<forall>file \<in> set files. \<not> (startsWith file (replace_first ''.pdf'' '''' pdfFilename @ ''-'')
                                     \<and> endsWith file ''.png'')) \<longrightarrow>
         fst (getPngListForPdf dirname fs pdfFilename) = [])"
proof (intro conjI)
  show "\<forall>files. pngs fs = Some files
         \<and> (\<forall>file \<in> set files.
               startsWith file (replace_first ''.pdf'' '''' pdfFilename @ ''-'') \<and> endsWith file ''.png''
               \<longrightarrow> page_number file \<le> MAX_SAFE_INTEGER) \<longrightarrow>
         sorted (map page_number (fst (getPngListForPdf dirname fs pdfFilename)))"
    by (simp add: getPngListForPdf_def Let_def sorted_by_page)
next
  show "\<forall>pre ds. ds \<noteq> [] \<and> list_all is_digit ds \<and> parseInt ds \<le> MAX_SAFE_INTEGER \<longrightarrow>
         page_number (pre @ CHR ''-'' # ds @ ''.png'') = parseInt ds"
    using page_number_parsed by blast
next
  show "\<forall>a. \<not> (\<exists>pre ds. a = pre @ CHR ''-'' # ds @ ''.png'' \<and> ds \<noteq> [] \<and> list_all is_digit ds) \<longrightarrow>
         page_number a = 0"
    using page_number_default by blast
next
  show "\<forall>files. pngs fs = Some files \<longrightarrow>
         mset (fst (getPngListForPdf dirname fs pdfFilename)) =
         mset (filter (\<lambda>file. startsWith file (replace_first ''.pdf'' '''' pdfFilename @ ''-'')
                              \<and> endsWith file ''.png'') files)"
    by (simp add: getPngListForPdf_def Let_def mset_array_sort)
next
  show "fst (getPngListForPdf dirname
            \<lparr>existing = pdfs, pngs = Some [''report-2.png'', ''report-1.png'', ''report-10.png'']\<rparr>
            ''report.pdf'') = [''report-1.png'', ''report-2.png'', ''report-10.png'']"
    by (simp add: getPngListForPdf_def startsWith_def endsWith_def array_sort_def
        compare_pages_def page_number_def parseInt_def is_digit_def Let_def)
next
  show "pngs fs = None \<or> pngs fs = Some [] \<longrightarrow> fst (getPngListForPdf dirname fs pdfFilename) = []"
    by (auto simp: getPngListForPdf_def Let_def array_sort_def)
next
  show "\<forall>files. pngs fs = Some files
         \<and> (\<forall>file \<in> set files. \<not> (startsWith file (replace_first ''.pdf'' '''' pdfFilename @ ''-'')
                                     \<and> endsWith file ''.png'')) \<longrightarrow>
         fst (getPngListForPdf dirname fs pdfFilename) = []"
  proof (intro allI impI)
    fix files
    assume a: "pngs fs = Some files
         \<and> (\<forall>file \<in> set files. \<not> (startsWith file (replace_first ''.pdf'' '''' pdfFilename @ ''-'')
                                     \<and> endsWith file ''.png''))"
    then have "filter (\<lambda>file. startsWith file (replace_first ''.pdf'' '''' pdfFilename @ ''-'')
                              \<and> endsWith file ''.png'') files = []"
      by (simp add: filter_empty_conv)
    with a show "fst (getPngListForPdf dirname fs pdfFilename) = []"
      by (simp add: getPngListForPdf_def Let_def array_sort_def)
  qed
qed

text \<open>
  A listing with an entry that has no page number, an entry of another document, and
  entries with the prefix but another extension; and a listing without any matching entry.
\<close>

theorem manifest_sorted_by_page_witness:
  "fst (getPngListForPdf ''/app''
     \<lparr>existing = [], pngs = Some [''report-2.png'', ''report-cover.png'', ''other-1.png'',
        ''report-3.jpg'', ''report-10.png'', ''report-4.png.bak'', ''report-1.png'']\<rparr>
     ''report.pdf'') = [''report-cover.png'', ''report-1.png'', ''report-2.png'', ''report-10.png'']
   \<and> sorted (map page_number [''report-cover.png'', ''report-1.png'', ''report-2.png'', ''report-10.png''])
   \<and> page_number ''report-10.png'' = 10
   \<and> page_number ''report-cover.png'' = 0
   \<and> fst (getPngListForPdf ''/app'' \<lparr>existing = [], pngs = Some [''other-1.png'', ''report-1.jpg'']\<rparr>
        ''report.pdf'') = []
   \<and> fst (getPngListForPdf ''/app'' \<lparr>existing = [], pngs = None\<rparr> ''report.pdf'') = []"
proof -
  let ?files = "[''report-2.png'', ''report-cover.png'', ''other-1.png'',
        ''report-3.jpg'', ''report-10.png'', ''report-4.png.bak'', ''report-1.png'']"
  let ?fs = "\<lparr>existing = [], pngs = Some ?files\<rparr>"
  let ?fs2 = "\<lparr>existing = [], pngs = Some [''other-1.png'', ''report-1.jpg'']\<rparr>"
  have run: "fst (getPngListForPdf ''/app'' ?fs ''report.pdf'') =
      [''report-cover.png'', ''report-1.png'', ''report-2.png'', ''report-10.png'']"
    by (simp add: getPngListForPdf_def startsWith_def endsWith_def array_sort_def
        compare_pages_def page_number_def parseInt_def is_digit_def Let_def)
  have ten: "''10'' \<noteq> [] \<and> list_all is_digit ''10'' \<and> parseInt ''10'' \<le> MAX_SAFE_INTEGER"
    by (simp add: is_digit_def parseInt_def MAX_SAFE_INTEGER_def)
  have p10: "page_number (''report'' @ CHR ''-'' # ''10'' @ ''.png'') = parseInt ''10''"
    using manifest_sorted_by_page [of ?fs "''report.pdf''" "''/app''"] ten by blast
  have bound: "pngs ?fs = Some ?files
      \<and> (\<forall>file \<in> set ?files.
            startsWith file (replace_first ''.pdf'' '''' ''report.pdf'' @ ''-'') \<and> endsWith file ''.png''
            \<longrightarrow> page_number file \<le> MAX_SAFE_INTEGER)"
    by (simp add: startsWith_def endsWith_def page_number_def parseInt_def is_digit_def
        MAX_SAFE_INTEGER_def)
  have srt: "sorted (map page_number (fst (getPngListForPdf ''/app'' ?fs ''report.pdf'')))"
    using bound manifest_sorted_by_page [of ?fs "''report.pdf''" "''/app''"] by blast
  have other: "pngs ?fs2 = Some [''other-1.png'', ''report-1.jpg'']
     \<and> (\<forall>file \<in> set [''other-1.png'', ''report-1.jpg''].
           \<not> (startsWith file (replace_first ''.pdf'' '''' ''report.pdf'' @ ''-'') \<and> endsWith file ''.png''))"
    by (simp add: startsWith_def endsWith_def)
  have none: "fst (getPngListForPdf ''/app'' ?fs2 ''report.pdf'') = []"
    using manifest_sorted_by_page [of ?fs2 "''report.pdf''" "''/app''"] other by blast
  have absent: "fst (getPngListForPdf ''/app'' \<lparr>existing = [], pngs = None\<rparr> ''report.pdf'') = []"
    using manifest_sorted_by_page [of "\<lparr>existing = [], pngs = None\<rparr>" "''report.pdf''" "''/app''"]
    by simp
  have cover: "page_number ''report-cover.png'' = 0"
    by (simp add: page_number_def parseInt_def is_digit_def)
  from run srt p10 none absent cover show ?thesis by (simp add: parseInt_def)
qed

text \<open>
  C9. For every string supplied as the primary filename, the manifest computation only
  asks whether the fixed \<open>pngs\<close> directory exists and lists it: the storage calls do not
  depend on the supplied string, which never becomes part of a path, and every name
  returned is an entry of that listing with the prefix and the suffix. The same holds for
  the storage calls of the login handler as a whole.
\<close>

theorem manifest_only_lists_pngs_directory:
  "set (snd (getPngListForPdf dirname fs pdfFilename))
     \<subseteq> {ExistsSync (path_join [dirname, ''pngs'']), ReaddirSync (path_join [dirname, ''pngs''])}
   \<and> snd (getPngListForPdf dirname fs pdfFilename) = snd (getPngListForPdf dirname fs other)
   \<and> (\<forall>file \<in> set (fst (getPngListForPdf dirname fs pdfFilename)).
         (\<exists>files. pngs fs = Some files \<and> file \<in> set files)
       \<and> startsWith file (replace_first ''.pdf'' '''' pdfFilename @ ''-'')
       \<and> endsWith file ''.png'')
   \<and> set (snd (post_auth2 jwt_sign e dirname fs now password isIOS (Some pdfFilename)))
     \<subseteq> {ExistsSync (path_join [dirname, ''pngs'']), ReaddirSync (path_join [dirname, ''pngs''])}"
proof (intro conjI)
  show ops: "set (snd (getPngListForPdf dirname fs pdfFilename))
     \<subseteq> {ExistsSync (path_join [dirname, ''pngs'']), ReaddirSync (path_join [dirname, ''pngs''])}"
    by (cases "pngs fs") (simp_all add: getPngListForPdf_def Let_def)
  show "snd (getPngListForPdf dirname fs pdfFilename) = snd (getPngListForPdf dirname fs other)"
    by (cases "pngs fs") (simp_all add: getPngListForPdf_def Let_def)
  show "\<forall>file \<in> set (fst (getPngListForPdf dirname fs pdfFilename)).
         (\<exists>files. pngs fs = Some files \<and> file \<in> set files)
       \<and> startsWith file (replace_first ''.pdf'' '''' pdfFilename @ ''-'')
       \<and> endsWith file ''.png''"
    by (cases "pngs fs") (simp_all add: getPngListForPdf_def Let_def set_array_sort)
  show "set (snd (post_auth2 jwt_sign e dirname fs now password isIOS (Some pdfFilename)))
     \<subseteq> {ExistsSync (path_join [dirname, ''pngs'']), ReaddirSync (path_join [dirname, ''pngs''])}"
    using ops
    by (auto simp: post_auth2_def error_middleware_def Let_def
        split: prod.splits if_splits sum.splits)
qed

text \<open>A traversal string as primary filename.\<close>

theorem manifest_only_lists_pngs_directory_witness:
  "snd (getPngListForPdf ''/app'' \<lparr>existing = [''/etc/passwd''], pngs = Some [''a-1.png'']\<rparr>
         ''../../etc/passwd'') = [ExistsSync ''/app/pngs'', ReaddirSync ''/app/pngs'']
   \<and> fst (getPngListForPdf ''/app'' \<lparr>existing = [''/etc/passwd''], pngs = Some [''a-1.png'']\<rparr>
         ''../../etc/passwd'') = []"
proof -
  let ?fs = "\<lparr>existing = [''/etc/passwd''], pngs = Some [''a-1.png'']\<rparr>"
  have same: "snd (getPngListForPdf ''/app'' ?fs ''../../etc/passwd'') =
      snd (getPngListForPdf ''/app'' ?fs ''a.pdf'')"
    using manifest_only_lists_pngs_directory [of "''/app''" ?fs "''../../etc/passwd''" "''a.pdf''"]
    by blast
  have "snd (getPngListForPdf ''/app'' ?fs ''a.pdf'') = [ExistsSync ''/app/pngs'', ReaddirSync ''/app/pngs'']"
    by (simp add: getPngListForPdf_def Let_def)
  moreover have "fst (getPngListForPdf ''/app'' ?fs ''../../etc/passwd'') = []"
    by (simp add: getPngListForPdf_def Let_def startsWith_def array_sort_def)
  ultimately show ?thesis using same by simp
qed

section \<open>Properties of the login route\<close>

text \<open>
  C6. Login succeeds, with \<open>success: true\<close>, the token just signed over
  \<open>{authenticated: true, timestamp: now}\<close> and \<open>expiresIn: 3600\<close>, if and only if the
  submitted password equals the configured \<open>PDF_PASSWORD\<close>; every other password is
  answered with status 401 and the body \<open>{success: false, message: "Invalid password"}\<close>,
  which carries no token, and for it \<open>jwt.sign\<close> is not called. The success half is for a
  \<open>jwt.sign\<close> that returns, as it does with a signing key configured; when it throws, the
  right password is answered by the error middleware with status 500 and no token. Both
  variants of the handler. (The comparison is \<open>===\<close>: a request without a password equals
  a \<open>PDF_PASSWORD\<close> that is not set.)
\<close>

theorem login_iff_password:
  "(password \<noteq> PDF_PASSWORD e \<longrightarrow>
      post_auth jwt_sign e now password =
        json_reply 401 (JObj [(''success'', JBool False), (''message'', JStr ''Invalid password'')])
    \<and> body_field (post_auth jwt_sign e now password) ''token'' = None
    \<and> post_auth2 jwt_sign e dirname fs now password isIOS pdfFilename =
        (json_reply 401 (JObj [(''success'', JBool False), (''message'', JStr ''Invalid password'')]), [])
    \<and> body_field (fst (post_auth2 jwt_sign e dirname fs now password isIOS pdfFilename)) ''token'' = None)
   \<and> (\<forall>token. jwt_sign \<lparr>authenticated = True, timestamp = now\<rparr> (JWT_SECRET e) ''1h'' = Inr token \<longrightarrow>
        (password = PDF_PASSWORD e \<longrightarrow>
           post_auth jwt_sign e now password =
             json_reply 200 (JObj [(''success'', JBool True), (''token'', JStr token),
               (''expiresIn'', JNum 3600)]))
      \<and> (body_field (post_auth jwt_sign e now password) ''success'' = Some (JBool True)
           \<longleftrightarrow> password = PDF_PASSWORD e)
      \<and> (password = PDF_PASSWORD e \<longrightarrow>
           status (fst (post_auth2 jwt_sign e dirname fs now password isIOS pdfFilename)) = 200
         \<and> body_field (fst (post_auth2 jwt_sign e dirname fs now password isIOS pdfFilename)) ''success''
             = Some (JBool True)
         \<and> body_field (fst (post_auth2 jwt_sign e dirname fs now password isIOS pdfFilename)) ''token''
             = Some (JStr token)
         \<and> body_field (fst (post_auth2 jwt_sign e dirname fs now password isIOS pdfFilename)) ''expiresIn''
             = Some (JNum 3600))
      \<and> (body_field (fst (post_auth2 jwt_sign e dirname fs now password isIOS pdfFilename)) ''success''
           = Some (JBool True) \<longleftrightarrow> password = PDF_PASSWORD e))
   \<and> (body_field (post_auth jwt_sign e now password) ''success'' = Some (JBool True)
        \<or> body_field (fst (post_auth2 jwt_sign e dirname fs now password isIOS pdfFilename)) ''success''
             = Some (JBool True)
      \<longrightarrow> password = PDF_PASSWORD e
        \<and> (\<exists>token. jwt_sign \<lparr>authenticated = True, timestamp = now\<rparr> (JWT_SECRET e) ''1h'' = Inr token))
   \<and> (\<forall>err. password = PDF_PASSWORD e
        \<and> jwt_sign \<lparr>authenticated = True, timestamp = now\<rparr> (JWT_SECRET e) ''1h'' = Inl err \<longrightarrow>
        post_auth jwt_sign e now password =
          json_reply 500 (JObj [(''error'', JStr ''Something went wrong!'')])
      \<and> post_auth2 jwt_sign e dirname fs now password isIOS pdfFilename =
          (json_reply 500 (JObj [(''error'', JStr ''Something went wrong!'')]), []))"
proof (intro conjI allI impI)
  assume "password \<noteq> PDF_PASSWORD e"
  then show "post_auth jwt_sign e now password =
        json_reply 401 (JObj [(''success'', JBool False), (''message'', JStr ''Invalid password'')])"
    and "body_field (post_auth jwt_sign e now password) ''token'' = None"
    and "post_auth2 jwt_sign e dirname fs now password isIOS pdfFilename =
        (json_reply 401 (JObj [(''success'', JBool False), (''message'', JStr ''Invalid password'')]), [])"
    and "body_field (fst (post_auth2 jwt_sign e dirname fs now password isIOS pdfFilename)) ''token'' = None"
    by (simp_all add: post_auth_def post_auth2_def json_reply_def body_field_def)
next
  fix token
  assume sign: "jwt_sign \<lparr>authenticated = True, timestamp = now\<rparr> (JWT_SECRET e) ''1h'' = Inr token"
  show "body_field (post_auth jwt_sign e now password) ''success'' = Some (JBool True)
           \<longleftrightarrow> password = PDF_PASSWORD e"
    using sign by (simp add: post_auth_def json_reply_def body_field_def)
  show "body_field (fst (post_auth2 jwt_sign e dirname fs now password isIOS pdfFilename)) ''success''
           = Some (JBool True) \<longleftrightarrow> password = PDF_PASSWORD e"
    using sign
    by (auto simp: post_auth2_def json_reply_def body_field_def Let_def
        split: option.splits prod.splits)
  {
    assume "password = PDF_PASSWORD e"
    then show "post_auth jwt_sign e now password =
             json_reply 200 (JObj [(''success'', JBool True), (''token'', JStr token),
               (''expiresIn'', JNum 3600)])"
      using sign by (simp add: post_auth_def)
  }
  {
    assume pw: "password = PDF_PASSWORD e"
    let ?r = "fst (post_auth2 jwt_sign e dirname fs now password isIOS pdfFilename)"
    show "status ?r = 200" and "body_field ?r ''success'' = Some (JBool True)"
      and "body_field ?r ''token'' = Some (JStr token)"
      and "body_field ?r ''expiresIn'' = Some (JNum 3600)"
      using sign pw
      by (auto simp: post_auth2_def json_reply_def body_field_def Let_def
          split: option.splits prod.splits)
  }
next
  assume "body_field (post_auth jwt_sign e now password) ''success'' = Some (JBool True)
        \<or> body_field (fst (post_auth2 jwt_sign e dirname fs now password isIOS pdfFilename)) ''success''
             = Some (JBool True)"
  then show "password = PDF_PASSWORD e"
    and "\<exists>token. jwt_sign \<lparr>authenticated = True, timestamp = now\<rparr> (JWT_SECRET e) ''1h'' = Inr token"
    by (auto simp: post_auth_def post_auth2_def error_middleware_def json_reply_def body_field_def
        Let_def split: option.splits prod.splits sum.splits if_splits)
next
  fix err
  assume "password = PDF_PASSWORD e
        \<and> jwt_sign \<lparr>authenticated = True, timestamp = now\<rparr> (JWT_SECRET e) ''1h'' = Inl err"
  then show "post_auth jwt_sign e now password =
          json_reply 500 (JObj [(''error'', JStr ''Something went wrong!'')])"
    and "post_auth2 jwt_sign e dirname fs now password isIOS pdfFilename =
          (json_reply 500 (JObj [(''error'', JStr ''Something went wrong!'')]), [])"
    by (simp_all add: post_auth_def post_auth2_def error_middleware_def)
qed

text \<open>
  The right password in the first variant, a wrong one in the second, and the right
  password on a server without a signing key.
\<close>

theorem login_iff_password_witness:
  "post_auth (\<lambda>c k x. Inr ''signed'') \<lparr>PDF_PASSWORD = Some ''hunter2'', JWT_SECRET = Some ''key'',
       SERVE_PNGS_FOR_IOS_var = None\<rparr> 1000 (Some ''hunter2'') =
     json_reply 200 (JObj [(''success'', JBool True), (''token'', JStr ''signed''),
       (''expiresIn'', JNum 3600)])
   \<and> post_auth2 (\<lambda>c k x. Inr ''signed'') \<lparr>PDF_PASSWORD = Some ''hunter2'', JWT_SECRET = Some ''key'',
       SERVE_PNGS_FOR_IOS_var = None\<rparr> ''/app'' \<lparr>existing = [], pngs = None\<rparr> 1000
       (Some ''hunter'') True (Some ''a.pdf'') =
     (json_reply 401 (JObj [(''success'', JBool False), (''message'', JStr ''Invalid password'')]), [])
   \<and> post_auth (\<lambda>c k x. Inl (Error ''secretOrPrivateKey must have a value''))
       \<lparr>PDF_PASSWORD = Some ''hunter2'', JWT_SECRET = None, SERVE_PNGS_FOR_IOS_var = None\<rparr> 1000
       (Some ''hunter2'') =
     json_reply 500 (JObj [(''error'', JStr ''Something went wrong!'')])"
proof -
  let ?e = "\<lparr>PDF_PASSWORD = Some ''hunter2'', JWT_SECRET = Some ''key'', SERVE_PNGS_FOR_IOS_var = None\<rparr>"
  let ?unkeyed = "\<lparr>PDF_PASSWORD = Some ''hunter2'', JWT_SECRET = None, SERVE_PNGS_FOR_IOS_var = None\<rparr>"
  let ?sign = "\<lambda>(c::claims) (k::string option) (x::string). (Inr ''signed'' :: js_error + string)"
  let ?fail = "\<lambda>(c::claims) (k::string option) (x::string).
      (Inl (Error ''secretOrPrivateKey must have a value'') :: js_error + string)"
  have signed: "?sign \<lparr>authenticated = True, timestamp = 1000\<rparr> (JWT_SECRET ?e) ''1h'' = Inr ''signed''"
    by simp
  have right: "Some ''hunter2'' = PDF_PASSWORD ?e" and wrong: "Some ''hunter'' \<noteq> PDF_PASSWORD ?e"
    by simp_all
  have thrown: "Some ''hunter2'' = PDF_PASSWORD ?unkeyed
      \<and> ?fail \<lparr>authenticated = True, timestamp = 1000\<rparr> (JWT_SECRET ?unkeyed) ''1h''
          = Inl (Error ''secretOrPrivateKey must have a value'')"
    by simp
  have a: "post_auth ?sign ?e 1000 (Some ''hunter2'') =
     json_reply 200 (JObj [(''success'', JBool True), (''token'', JStr ''signed''),
       (''expiresIn'', JNum 3600)])"
    using signed right login_iff_password [of "Some ''hunter2''" ?e ?sign 1000] by blast
  have b: "post_auth2 ?sign ?e ''/app'' \<lparr>existing = [], pngs = None\<rparr> 1000
       (Some ''hunter'') True (Some ''a.pdf'') =
     (json_reply 401 (JObj [(''success'', JBool False), (''message'', JStr ''Invalid password'')]), [])"
    using wrong login_iff_password [of "Some ''hunter''" ?e ?sign 1000 "''/app''"
        "\<lparr>existing = [], pngs = None\<rparr>" True "Some ''a.pdf''"] by blast
  have c: "post_auth ?fail ?unkeyed 1000 (Some ''hunter2'') =
     json_reply 500 (JObj [(''error'', JStr ''Something went wrong!'')])"
    using thrown login_iff_password [of "Some ''hunter2''" ?unkeyed ?fail 1000] by blast
  from a b c show ?thesis by blast
qed



section \<open>Properties of the rate limiter\<close>

text \<open>Calls in sequence compose; inside one window the counter counts the calls.\<close>

lemma allow_calls_append:
  "allow_calls config table key (xs @ ys) =
     (case allow_calls config table key xs of
        (oks, table') \<Rightarrow>
          (case allow_calls config table' key ys of (oks', table'') \<Rightarrow> (oks @ oks', table'')))"
  by (induction xs arbitrary: table) (auto split: prod.splits)

lemma allow_in_window:
  assumes "table key = Some w" "now - window_start w \<le> windowMs (config (snd key))"
  shows "allow config table key now =
     (window_count w + 1 \<le> max_requests (config (snd key)),
      table(key \<mapsto> w\<lparr>window_count := window_count w + 1\<rparr>))"
  using assms by (simp add: allow_def Let_def)

lemma allow_fresh:
  assumes "table key = None \<or> (\<exists>w. table key = Some w \<and> now - window_start w > windowMs (config (snd key)))"
  shows "allow config table key now =
     (True, table(key \<mapsto> \<lparr>window_start = now, window_count = 1\<rparr>))"
  using assms by (auto simp: allow_def Let_def)

lemma upt_head: "[c + 1 ..< c + 1 + Suc n] = (c + 1) # [c + 1 + 1 ..< c + 1 + 1 + n]"
proof -
  have "c + 1 < c + 1 + Suc n" by simp
  then have "[c + 1 ..< c + 1 + Suc n] = (c + 1) # [Suc (c + 1) ..< c + 1 + Suc n]"
    by (rule upt_conv_Cons)
  moreover have "Suc (c + 1) = c + 1 + 1" "c + 1 + Suc n = c + 1 + 1 + n" by simp_all
  ultimately show ?thesis by (simp only:)
qed

lemma allow_calls_in_window:
  assumes "table key = Some \<lparr>window_start = t0, window_count = c\<rparr>"
    and "\<forall>t \<in> set ts. t - t0 \<le> windowMs (config (snd key))"
  shows "fst (allow_calls config table key ts) =
           map (\<lambda>k. k \<le> max_requests (config (snd key))) [c + 1 ..< c + 1 + length ts]
       \<and> snd (allow_calls config table key ts) key =
           Some \<lparr>window_start = t0, window_count = c + length ts\<rparr>"
  using assms
proof (induction ts arbitrary: table c)
  case Nil
  then show ?case by simp
next
  case (Cons t ts)
  let ?w = "\<lparr>window_start = t0, window_count = c\<rparr>"
  let ?table = "table(key \<mapsto> ?w\<lparr>window_count := window_count ?w + 1\<rparr>)"
  let ?ok = "\<lambda>k. k \<le> max_requests (config (snd key))"
  from Cons.prems have step: "allow config table key t = (?ok (c + 1), ?table)"
    using allow_in_window [of table key ?w t config] by simp
  have next_window: "?table key = Some \<lparr>window_start = t0, window_count = c + 1\<rparr>" by simp
  from Cons.prems have rest: "\<forall>t \<in> set ts. t - t0 \<le> windowMs (config (snd key))" by simp
  have ih: "fst (allow_calls config ?table key ts) = map ?ok [c + 1 + 1 ..< c + 1 + 1 + length ts]
       \<and> snd (allow_calls config ?table key ts) key =
           Some \<lparr>window_start = t0, window_count = c + 1 + length ts\<rparr>"
    using Cons.IH [of ?table "c + 1"] next_window rest by blast
  have answers: "fst (allow_calls config table key (t # ts)) =
      ?ok (c + 1) # fst (allow_calls config ?table key ts)"
    and windows: "snd (allow_calls config table key (t # ts)) = snd (allow_calls config ?table key ts)"
    using step by (simp_all split: prod.splits)
  have "fst (allow_calls config table key (t # ts)) = map ?ok ((c + 1) # [c + 1 + 1 ..< c + 1 + 1 + length ts])"
    using answers ih by simp
  also have "\<dots> = map ?ok [c + 1 ..< c + 1 + length (t # ts)]"
    using upt_head [of c "length ts"] by simp
  finally have first: "fst (allow_calls config table key (t # ts)) =
      map ?ok [c + 1 ..< c + 1 + length (t # ts)]" .
  have "snd (allow_calls config table key (t # ts)) key =
      Some \<lparr>window_start = t0, window_count = c + length (t # ts)\<rparr>"
    using windows ih by simp
  with first show ?case by blast
qed

lemma ten_then_deny:
  "True # map (\<lambda>k. k \<le> (10::nat)) [1 + 1 ..< 1 + 1 + 10] @ [True] =
     replicate 10 True @ [False, True]"
  by code_simp

text \<open>
  C7. For every key the limiter is a fixed-window counter: without a window for the key,
  or with one older than the window width, a fresh window with count 1 starts and the
  call is allowed; otherwise the count is incremented and the call is allowed exactly
  when the new count is at most the ceiling. So for a fresh key and a ceiling of 10, of
  eleven calls inside one window the first ten are allowed and the eleventh is denied,
  and the first call after the window has elapsed is allowed again.
\<close>

theorem rate_window_accounting:
  "(table key = None \<longrightarrow>
      allow config table key now = (True, table(key \<mapsto> \<lparr>window_start = now, window_count = 1\<rparr>)))
   \<and> (\<forall>w. table key = Some w \<and> now - window_start w > windowMs (config (snd key)) \<longrightarrow>
      allow config table key now = (True, table(key \<mapsto> \<lparr>window_start = now, window_count = 1\<rparr>)))
   \<and> (\<forall>w. table key = Some w \<and> now - window_start w \<le> windowMs (config (snd key)) \<longrightarrow>
      allow config table key now =
        (window_count w + 1 \<le> max_requests (config (snd key)),
         table(key \<mapsto> w\<lparr>window_count := window_count w + 1\<rparr>)))
   \<and> (table key = None \<and> max_requests (config (snd key)) = 10 \<and> length ts = 10
        \<and> (\<forall>t \<in> set ts. t - t0 \<le> windowMs (config (snd key)))
        \<and> later - t0 > windowMs (config (snd key)) \<longrightarrow>
      fst (allow_calls config table key (t0 # ts @ [later])) = replicate 10 True @ [False, True])"
proof (intro conjI)
  show "table key = None \<longrightarrow>
      allow config table key now = (True, table(key \<mapsto> \<lparr>window_start = now, window_count = 1\<rparr>))"
    by (simp add: allow_fresh)
  show "\<forall>w. table key = Some w \<and> now - window_start w > windowMs (config (snd key)) \<longrightarrow>
      allow config table key now = (True, table(key \<mapsto> \<lparr>window_start = now, window_count = 1\<rparr>))"
    by (simp add: allow_fresh)
  show "\<forall>w. table key = Some w \<and> now - window_start w \<le> windowMs (config (snd key)) \<longrightarrow>
      allow config table key now =
        (window_count w + 1 \<le> max_requests (config (snd key)),
         table(key \<mapsto> w\<lparr>window_count := window_count w + 1\<rparr>))"
    by (simp add: allow_in_window)
  show "table key = None \<and> max_requests (config (snd key)) = 10 \<and> length ts = 10
        \<and> (\<forall>t \<in> set ts. t - t0 \<le> windowMs (config (snd key)))
        \<and> later - t0 > windowMs (config (snd key)) \<longrightarrow>
      fst (allow_calls config table key (t0 # ts @ [later])) = replicate 10 True @ [False, True]"
  proof
    assume a: "table key = None \<and> max_requests (config (snd key)) = 10 \<and> length ts = 10
        \<and> (\<forall>t \<in> set ts. t - t0 \<le> windowMs (config (snd key)))
        \<and> later - t0 > windowMs (config (snd key))"
    let ?t1 = "table(key \<mapsto> \<lparr>window_start = t0, window_count = 1\<rparr>)"
    from a have first: "allow config table key t0 = (True, ?t1)" by (simp add: allow_fresh)
    have w1: "?t1 key = Some \<lparr>window_start = t0, window_count = 1\<rparr>" by simp
    from a have inwin: "\<forall>t \<in> set ts. t - t0 \<le> windowMs (config (snd key))" by simp
    obtain oks t2 where run: "allow_calls config ?t1 key ts = (oks, t2)" by (cases "allow_calls config ?t1 key ts")
    from a have ten: "max_requests (config (snd key)) = 10" and len: "length ts = 10" by simp_all
    from allow_calls_in_window [of ?t1 key t0 1 ts config] w1 inwin
    have w: "fst (allow_calls config ?t1 key ts) =
          map (\<lambda>k. k \<le> max_requests (config (snd key))) [1 + 1 ..< 1 + 1 + length ts]"
      and w2: "snd (allow_calls config ?t1 key ts) key =
          Some \<lparr>window_start = t0, window_count = 1 + length ts\<rparr>"
      by blast+
    from w run have oks: "oks = map (\<lambda>k. k \<le> (10::nat)) [1 + 1 ..< 1 + 1 + 10]"
      by (simp only: ten len fst_conv)
    from w2 run len have t2: "t2 key = Some \<lparr>window_start = t0, window_count = 11\<rparr>" by simp
    from t2 a have last: "allow config t2 key later =
        (True, t2(key \<mapsto> \<lparr>window_start = later, window_count = 1\<rparr>))"
      by (intro allow_fresh) simp
    have "fst (allow_calls config table key (t0 # ts @ [later])) = True # oks @ [True]"
      using first run last by (simp add: allow_calls_append)
    with oks ten_then_deny
    show "fst (allow_calls config table key (t0 # ts @ [later])) = replicate 10 True @ [False, True]"
      by (simp only:)
  qed
qed

text \<open>The asset route of the first variant: ceiling 10, window of five minutes.\<close>

theorem rate_window_accounting_witness:
  "fst (allow_calls route_options Map.empty (''203.0.113.7'', asset)
     [0, 1, 2, 3, 4, 5, 6, 7, 8, 9, 300000, 300001]) = replicate 10 True @ [False, True]"
proof -
  have hyp: "Map.empty (''203.0.113.7'', asset) = None
      \<and> max_requests (route_options (snd (''203.0.113.7'', asset))) = 10
      \<and> length [1, 2, 3, 4, 5, 6, 7, 8, 9, 300000 :: int] = 10
      \<and> (\<forall>t \<in> set [1, 2, 3, 4, 5, 6, 7, 8, 9, 300000 :: int].
            t - 0 \<le> windowMs (route_options (snd (''203.0.113.7'', asset))))
      \<and> 300001 - 0 > windowMs (route_options (snd (''203.0.113.7'', asset)))"
    by (simp add: pdfLimiter_def)
  have "fst (allow_calls route_options Map.empty (''203.0.113.7'', asset)
     (0 # [1, 2, 3, 4, 5, 6, 7, 8, 9, 300000] @ [300001])) = replicate 10 True @ [False, True]"
    using hyp rate_window_accounting [of Map.empty "(''203.0.113.7'', asset)" route_options 0
        "[1, 2, 3, 4, 5, 6, 7, 8, 9, 300000]" 0 300001]
    by blast
  then show ?thesis by simp
qed

end
